theory Spec2Isabelle
  imports Main "HOL-Library.AList"
begin

section \<open>Documents: the values of \<open>mapstr.M\<close>\<close>

text \<open>
  The generator of \<^verbatim>\<open>kubernetes/metadata/pod.go\<close> builds its result in a
  \<^verbatim>\<open>mapstr.M\<close>, a Go \<^verbatim>\<open>map[string]interface{}\<close>.
  A value of type \<^verbatim>\<open>interface{}\<close> is modelled by \<open>val\<close>: the nil interface,
  a string, a map (which, as every Go map, may itself be the nil map) or any other dynamic
  type. A map with entries is an association list with \<open>map_of\<close> as its reading; the nil
  map is \<open>None\<close>. \<^verbatim>\<open>mapstr.M\<close> and \<^verbatim>\<open>map[string]interface{}\<close> are one
  constructor: every operation used here converts the second to the first before it does
  anything else.

  Maps are modelled by value. The documents handed over by the collaborators are taken to
  be trees (no map object is reachable along two paths), so that an in-place update of the
  Go map is the functional update of the model.
\<close>

datatype val =
    VNil
  | VStr string
  | VOther nat
  | VMap "(string \<times> val) list option"

type_synonym entries = "(string \<times> val) list"
type_synonym mapstr = "entries option"

datatype err = ErrKeyNotFound | ErrNotMap

datatype panic = NilMapWrite | NilDereference

text \<open>Reading \<^verbatim>\<open>m[k]\<close>; reading the nil map finds nothing.\<close>

definition index :: "mapstr \<Rightarrow> string \<Rightarrow> val option" where
  "index m k = (case m of None \<Rightarrow> None | Some kvs \<Rightarrow> map_of kvs k)"

text \<open>Ranging over a map; the nil map has no entries.\<close>

definition entriesOf :: "mapstr \<Rightarrow> entries" where
  "entriesOf m = (case m of None \<Rightarrow> [] | Some kvs \<Rightarrow> kvs)"

text \<open>\<^verbatim>\<open>strings.IndexRune(key, '.')\<close>, \<open>None\<close> for the result \<open>-1\<close>.\<close>

fun indexDot :: "string \<Rightarrow> nat option" where
  "indexDot [] = None"
| "indexDot (c # cs) = (if c = CHR ''.'' then Some 0 else map_option Suc (indexDot cs))"

lemma indexDot_Some_less: "indexDot key = Some idx \<Longrightarrow> idx < length key"
  by (induction key arbitrary: idx) (auto split: if_splits)

subsection \<open>\<open>GetValue\<close> and \<open>Put\<close>\<close>

text \<open>
  Both operations of \<^verbatim>\<open>mapstr\<close> walk a dotted key with the library's
  \<^verbatim>\<open>mapFind\<close> loop: the key as it is first (the fast path), then the part before
  the first dot as the key of a sub-map and the rest of the key inside it. The loop is
  written out once for reading (\<^verbatim>\<open>createMissing = false\<close>) and once for writing
  (\<^verbatim>\<open>createMissing = true\<close>), where the model rebuilds the maps on the way back.
\<close>

function GetValue :: "string \<Rightarrow> mapstr \<Rightarrow> err + val" where
  "GetValue key data =
     (case index data key of
        Some v \<Rightarrow> Inr v
      | None \<Rightarrow>
         (case indexDot key of
            None \<Rightarrow> Inl ErrKeyNotFound
          | Some idx \<Rightarrow>
             (case index data (take idx key) of
                None \<Rightarrow> Inl ErrKeyNotFound
              | Some (VMap d) \<Rightarrow> GetValue (drop (idx + 1) key) d
              | Some _ \<Rightarrow> Inl ErrNotMap)))"
  by pat_completeness auto
termination
  by (relation "measure (\<lambda>(key, data). length key)") (auto dest: indexDot_Some_less)

declare GetValue.simps [simp del]

text \<open>
  \<open>Put\<close> returns \<open>Inl\<close> when the Go code panics (an assignment to an entry of a nil map),
  \<open>Inr (Inl e)\<close> when it returns the error \<open>e\<close> and leaves the map as it was, and
  \<open>Inr (Inr m)\<close> with the updated map otherwise. The old value that the Go function also
  returns is not modelled; no caller in this file reads it.
\<close>

function Put :: "string \<Rightarrow> val \<Rightarrow> mapstr \<Rightarrow> panic + (err + mapstr)" where
  "Put key v data =
     (case data of
        None \<Rightarrow> Inl NilMapWrite
      | Some kvs \<Rightarrow>
         (case map_of kvs key of
            Some old \<Rightarrow> Inr (Inr (Some (AList.update key v kvs)))
          | None \<Rightarrow>
             (case indexDot key of
                None \<Rightarrow> Inr (Inr (Some (AList.update key v kvs)))
              | Some idx \<Rightarrow>
                 (case map_of kvs (take idx key) of
                    None \<Rightarrow>
                     (case Put (drop (idx + 1) key) v (Some []) of
                        Inr (Inr d') \<Rightarrow> Inr (Inr (Some (AList.update (take idx key) (VMap d') kvs)))
                      | Inr (Inl e) \<Rightarrow> Inr (Inl e)
                      | Inl pn \<Rightarrow> Inl pn)
                  | Some (VMap d) \<Rightarrow>
                     (case Put (drop (idx + 1) key) v d of
                        Inr (Inr d') \<Rightarrow> Inr (Inr (Some (AList.update (take idx key) (VMap d') kvs)))
                      | Inr (Inl e) \<Rightarrow> Inr (Inl e)
                      | Inl pn \<Rightarrow> Inl pn)
                  | Some _ \<Rightarrow> Inr (Inl ErrNotMap)))))"
  by pat_completeness auto
termination
  by (relation "measure (\<lambda>(key, v, data). length key)") (auto dest: indexDot_Some_less)

declare Put.simps [simp del]

subsection \<open>\<open>DeepUpdate\<close>\<close>

text \<open>
  \<^verbatim>\<open>DeepUpdate\<close> copies the entries of \<open>d\<close> into the receiver, merging map into map.
  It calls \<^verbatim>\<open>deepUpdateMap\<close> with \<^verbatim>\<open>overwrite = true\<close>, the only mode
  the generator uses. The list order of \<open>d\<close> stands for the order in which Go ranges over
  the map.
\<close>

function deepUpdateMap :: "entries \<Rightarrow> entries \<Rightarrow> entries"
  and deepUpdateValue :: "val option \<Rightarrow> mapstr \<Rightarrow> val" where
  "deepUpdateMap m [] = m"
| "deepUpdateMap m ((k, v) # d) =
     deepUpdateMap
       (case v of
          VMap val \<Rightarrow> AList.update k (deepUpdateValue (map_of m k) val) m
        | _ \<Rightarrow> AList.update k v m)
       d"
| "deepUpdateValue old val =
     (case old of
        Some (VMap (Some sub)) \<Rightarrow> VMap (Some (deepUpdateMap sub (entriesOf val)))
      | _ \<Rightarrow> VMap val)"
  by pat_completeness auto
termination
  by (relation "measure (\<lambda>x. case x of
         Inl (m, d) \<Rightarrow> 2 * size_list (size_prod (\<lambda>_. 0) size) d
       | Inr (old, val) \<Rightarrow> 2 * size_option (size_list (size_prod (\<lambda>_. 0) size)) val + 1)")
     (auto simp: entriesOf_def split: option.splits)

definition DeepUpdate :: "mapstr \<Rightarrow> mapstr \<Rightarrow> panic + mapstr" where
  "DeepUpdate m d =
     (case m of
        Some kvs \<Rightarrow> Inr (Some (deepUpdateMap kvs (entriesOf d)))
      | None \<Rightarrow> (if entriesOf d = [] then Inr None else Inl NilMapWrite))"

section \<open>The Pod metadata generator\<close>

text \<open>
  \<^verbatim>\<open>kubernetes.Resource\<close> is an interface; the generator only asks whether the
  dynamic type of the value is \<^verbatim>\<open>*kubernetes.Pod\<close>. Of a Pod it reads
  \<^verbatim>\<open>Spec.NodeName\<close> and \<^verbatim>\<open>Status.PodIP\<close>. \<open>OtherObj\<close> is a value of any
  other dynamic type (the nil interface included), tagged with the name of its kind.
  A Pod is a pointer to an object, never a nil pointer.
\<close>

record PodSpec =
  NodeName :: string

record PodStatus =
  PodIP :: string

record Pod =
  Spec :: PodSpec
  Status :: PodStatus

datatype Resource = PodObj Pod | OtherObj string

text \<open>
  \<^verbatim>\<open>FieldOptions\<close>: the generator builds one option itself,
  \<^verbatim>\<open>WithMetadata("node")\<close>, and passes the caller's options on unread.
\<close>

datatype FieldOptions = WithMetadata string | OtherOption nat

text \<open>
  The fields of \<^verbatim>\<open>AddResourceMetadataConfig\<close> that the generator reads.
\<close>

record AddResourceMetadataConfig =
  Deployment :: bool
  CronJob :: bool

text \<open>
  A peer generator (\<^verbatim>\<open>MetaGen\<close>) is used through \<^verbatim>\<open>GenerateFromName\<close> only and
  is a function from the name and the options to a document; a field of interface type that
  is nil is \<open>None\<close>. The calls made to the peers are recorded, in order, in a list of
  \<open>call\<close>s that the generator returns next to its document. A peer does not panic.
  No line of the generator calls the Job peer, so that no run records
  \<open>JobGenerateFromName\<close>.
\<close>

type_synonym MetaGen = "string \<Rightarrow> FieldOptions list \<Rightarrow> mapstr"

datatype call =
    NodeGenerateFromName string "FieldOptions list"
  | ReplicaSetGenerateFromName string "FieldOptions list"
  | JobGenerateFromName string "FieldOptions list"

text \<open>
  The struct \<^verbatim>\<open>pod\<close>. The field \<^verbatim>\<open>resource\<close> is the resource generator
  of \<^verbatim>\<open>resource.go\<close>, a collaborator like the peers: its two methods
  \<^verbatim>\<open>GenerateK8s\<close> and \<^verbatim>\<open>GenerateECS\<close> are fields of the record, functions
  that return a document and do not panic.
  \<^verbatim>\<open>store.GetByKey\<close> gives the object and whether it exists (its error is dropped
  by the caller). The field \<^verbatim>\<open>client\<close> is never read.
\<close>

record pod =
  store :: "(string \<Rightarrow> Resource \<times> bool) option"
  node :: "MetaGen option"
  replicaset :: "MetaGen option"
  job :: "MetaGen option"
  resourceGenerateK8s :: "string \<Rightarrow> Resource \<Rightarrow> FieldOptions list \<Rightarrow> mapstr"
  resourceGenerateECS :: "Resource \<Rightarrow> mapstr"
  addResourceMetadata :: "AddResourceMetadataConfig option"

text \<open>\<^verbatim>\<open>v, _ := m.GetValue(key)\<close>: the nil interface on error.\<close>

definition valueOrNil :: "err + val \<Rightarrow> val" where
  "valueOrNil r = (case r of Inl e \<Rightarrow> VNil | Inr v \<Rightarrow> v)"

text \<open>\<^verbatim>\<open>_, _ = out.Put(key, v)\<close>: an error leaves \<open>out\<close> as it was, a panic goes on.\<close>

definition putIgnoringError :: "string \<Rightarrow> val \<Rightarrow> mapstr \<Rightarrow> panic + mapstr" where
  "putIgnoringError key v out =
     (case Put key v out of
        Inl pn \<Rightarrow> Inl pn
      | Inr (Inl e) \<Rightarrow> Inr out
      | Inr (Inr out') \<Rightarrow> Inr out')"

definition andThen :: "panic + 'a \<Rightarrow> ('a \<Rightarrow> panic + 'b) \<Rightarrow> panic + 'b" where
  "andThen r f = (case r of Inl pn \<Rightarrow> Inl pn | Inr x \<Rightarrow> f x)"

text \<open>Lines 96 to 107 of \<^verbatim>\<open>GenerateK8s\<close>: Deployment, through the ReplicaSet.\<close>

definition deploymentHop ::
  "pod \<Rightarrow> AddResourceMetadataConfig \<Rightarrow> mapstr \<times> call list \<Rightarrow> panic + (mapstr \<times> call list)" where
  "deploymentHop p cfg s =
     (case s of (out, calls) \<Rightarrow>
        if Deployment cfg then
          (case replicaset p of
             None \<Rightarrow> Inr (out, calls)
           | Some rs \<Rightarrow>
              (case valueOrNil (GetValue ''replicaset.name'' out) of
                 VStr rsName \<Rightarrow>
                   (let meta = rs rsName [];
                        calls' = calls @ [ReplicaSetGenerateFromName rsName []];
                        deploymentName = valueOrNil (GetValue ''deployment.name'' meta)
                    in if deploymentName \<noteq> VStr ''''
                       then andThen (putIgnoringError ''deployment.name'' deploymentName out)
                              (\<lambda>out'. Inr (out', calls'))
                       else Inr (out, calls'))
               | _ \<Rightarrow> Inr (out, calls)))
        else Inr (out, calls))"

text \<open>
  Lines 111 to 122: CronJob, through the Job. The guard tests \<^verbatim>\<open>p.job\<close>; the call
  is made on \<^verbatim>\<open>p.replicaset\<close>, and a method call on a nil interface panics.
\<close>

definition cronjobHop ::
  "pod \<Rightarrow> AddResourceMetadataConfig \<Rightarrow> mapstr \<times> call list \<Rightarrow> panic + (mapstr \<times> call list)" where
  "cronjobHop p cfg s =
     (case s of (out, calls) \<Rightarrow>
        if CronJob cfg then
          (case job p of
             None \<Rightarrow> Inr (out, calls)
           | Some j \<Rightarrow>
              (case valueOrNil (GetValue ''job.name'' out) of
                 VStr jobName \<Rightarrow>
                   (case replicaset p of
                      None \<Rightarrow> Inl NilDereference
                    | Some rs \<Rightarrow>
                       (let meta = rs jobName [];
                            calls' = calls @ [ReplicaSetGenerateFromName jobName []];
                            cronjobName = valueOrNil (GetValue ''cronjob.name'' meta)
                        in if cronjobName \<noteq> VStr ''''
                           then andThen (putIgnoringError ''cronjob.name'' cronjobName out)
                                  (\<lambda>out'. Inr (out', calls'))
                           else Inr (out, calls')))
               | _ \<Rightarrow> Inr (out, calls)))
        else Inr (out, calls))"

text \<open>
  Lines 124 to 133: the node. \<^verbatim>\<open>meta["node"]\<close> is a plain index of the map, the nil
  interface when the key is missing.
\<close>

definition nodeHop ::
  "pod \<Rightarrow> Pod \<Rightarrow> mapstr \<times> call list \<Rightarrow> panic + (mapstr \<times> call list)" where
  "nodeHop p po s =
     (case s of (out, calls) \<Rightarrow>
        (case node p of
           Some n \<Rightarrow>
             (let meta = n (NodeName (Spec po)) [WithMetadata ''node''];
                  calls' = calls @ [NodeGenerateFromName (NodeName (Spec po)) [WithMetadata ''node'']]
              in if meta \<noteq> None
                 then andThen
                        (putIgnoringError ''node''
                           (case index meta ''node'' of None \<Rightarrow> VNil | Some v \<Rightarrow> v) out)
                        (\<lambda>out'. Inr (out', calls'))
                 else andThen (putIgnoringError ''node.name'' (VStr (NodeName (Spec po))) out)
                        (\<lambda>out'. Inr (out', calls')))
         | None \<Rightarrow>
             andThen (putIgnoringError ''node.name'' (VStr (NodeName (Spec po))) out)
               (\<lambda>out'. Inr (out', calls))))"

text \<open>Lines 135 to 137: the IP address of the Pod.\<close>

definition podIPStep :: "Pod \<Rightarrow> mapstr \<times> call list \<Rightarrow> panic + (mapstr \<times> call list)" where
  "podIPStep po s =
     (case s of (out, calls) \<Rightarrow>
        if PodIP (Status po) \<noteq> ''''
        then andThen (putIgnoringError ''pod.ip'' (VStr (PodIP (Status po))) out)
               (\<lambda>out'. Inr (out', calls))
        else Inr (out, calls))"

text \<open>
  \<^verbatim>\<open>GenerateK8s\<close>. The result is \<open>Inl\<close> for a panic, and otherwise the document
  returned (\<open>None\<close> is the nil map) with the calls made to the peers. Reading a flag through
  a nil \<^verbatim>\<open>addResourceMetadata\<close> panics.
\<close>

definition GenerateK8s :: "pod \<Rightarrow> Resource \<Rightarrow> FieldOptions list \<Rightarrow> panic + (mapstr \<times> call list)" where
  "GenerateK8s p obj opts =
     (case obj of
        OtherObj kind \<Rightarrow> Inr (None, [])
      | PodObj po \<Rightarrow>
         (let out = resourceGenerateK8s p ''pod'' obj opts
          in case addResourceMetadata p of
               None \<Rightarrow> Inl NilDereference
             | Some cfg \<Rightarrow>
                 andThen (deploymentHop p cfg (out, []))
                   (\<lambda>s1. andThen (cronjobHop p cfg s1)
                     (\<lambda>s2. andThen (nodeHop p po s2) (podIPStep po)))))"

definition GenerateECS :: "pod \<Rightarrow> Resource \<Rightarrow> mapstr" where
  "GenerateECS p obj = resourceGenerateECS p obj"

text \<open>
  \<^verbatim>\<open>Generate\<close>: the map literal with the key \<^verbatim>\<open>"kubernetes"\<close>, then
  \<^verbatim>\<open>DeepUpdate\<close> with the ECS fields.
\<close>

definition Generate :: "pod \<Rightarrow> Resource \<Rightarrow> FieldOptions list \<Rightarrow> panic + (mapstr \<times> call list)" where
  "Generate p obj opts =
     (let ecsFields = GenerateECS p obj
      in andThen (GenerateK8s p obj opts)
           (\<lambda>r. case r of (k8s, calls) \<Rightarrow>
              andThen (DeepUpdate (Some [(''kubernetes'', VMap k8s)]) ecsFields)
                (\<lambda>meta. Inr (meta, calls))))"

text \<open>\<^verbatim>\<open>GenerateFromName\<close>: the Pod of that name in the store, if there is one.\<close>

definition GenerateFromName :: "pod \<Rightarrow> string \<Rightarrow> FieldOptions list \<Rightarrow> panic + (mapstr \<times> call list)" where
  "GenerateFromName p name opts =
     (case store p of
        None \<Rightarrow> Inr (None, [])
      | Some getByKey \<Rightarrow>
         (case getByKey name of
            (obj, ok) \<Rightarrow>
              if ok then
                (case obj of
                   PodObj po \<Rightarrow> GenerateK8s p (PodObj po) opts
                 | OtherObj kind \<Rightarrow> Inr (None, []))
              else Inr (None, [])))"

section \<open>The deep merge of the specification\<close>

text \<open>
  A document is well formed when no map in it has a key twice, as in every Go map.
\<close>

fun wfVal :: "val \<Rightarrow> bool" where
  "wfVal (VMap (Some kvs)) = (distinct (map fst kvs) \<and> list_all (\<lambda>kv. wfVal (snd kv)) kvs)"
| "wfVal v = True"

definition wfEntries :: "entries \<Rightarrow> bool" where
  "wfEntries kvs = wfVal (VMap (Some kvs))"

text \<open>
  A generator is well formed when every document that its collaborators hand over is.
\<close>

definition wfPeer :: "MetaGen option \<Rightarrow> bool" where
  "wfPeer g = (case g of None \<Rightarrow> True | Some f \<Rightarrow> (\<forall>name opts. wfVal (VMap (f name opts))))"

definition wfGenerator :: "pod \<Rightarrow> bool" where
  "wfGenerator p =
     ((\<forall>kind r opts. wfVal (VMap (resourceGenerateK8s p kind r opts)))
      \<and> (\<forall>r. wfVal (VMap (resourceGenerateECS p r)))
      \<and> wfPeer (node p) \<and> wfPeer (replicaset p) \<and> wfPeer (job p))"

text \<open>
  The specification's deep merge: the recursive union of two nested mappings, in which
  nested maps merge recursively and a leaf of the second operand overwrites what the first
  has under the same key. The entries of the first operand come first, each merged with
  the entry of the second operand under its key if there is one; the entries of the second
  operand under new keys follow. Where the first operand has a scalar or the nil map and
  the second a map, the second wins as a whole.
\<close>

function specMerge :: "entries \<Rightarrow> entries \<Rightarrow> entries"
  and specMergeValue :: "val \<Rightarrow> val \<Rightarrow> val" where
  "specMerge a b =
     map (\<lambda>kv. (fst kv, case map_of b (fst kv) of
                          None \<Rightarrow> snd kv
                        | Some vb \<Rightarrow> specMergeValue (snd kv) vb)) a
     @ filter (\<lambda>kv. map_of a (fst kv) = None) b"
| "specMergeValue va vb =
     (case vb of
        VMap bm \<Rightarrow>
          (case va of
             VMap (Some am) \<Rightarrow> VMap (Some (specMerge am (entriesOf bm)))
           | _ \<Rightarrow> vb)
      | _ \<Rightarrow> vb)"
  by pat_completeness auto
termination
  by (relation "measure (\<lambda>x. case x of
         Inl (a, b) \<Rightarrow> 2 * size_list (size_prod (\<lambda>_. 0) size) a + 1
       | Inr (va, vb) \<Rightarrow> 2 * size va)")
     (auto simp: size_list_estimation' less_Suc_eq_le)

declare specMerge.simps [simp del] specMergeValue.simps [simp del]

text \<open>The value under a path of keys, one key for each level of nesting.\<close>

fun getPath :: "string list \<Rightarrow> val \<Rightarrow> val option" where
  "getPath [] v = Some v"
| "getPath (k # ks) (VMap (Some kvs)) =
     (case map_of kvs k of None \<Rightarrow> None | Some v \<Rightarrow> getPath ks v)"
| "getPath (k # ks) v = None"

section \<open>The answers of a peer at two moments\<close>


section \<open>Keys, and what a step may touch\<close>

text \<open>The part of a key before its first dot, the whole key when it has none.\<close>

definition firstSeg :: "string \<Rightarrow> string" where
  "firstSeg key = (case indexDot key of None \<Rightarrow> key | Some idx \<Rightarrow> take idx key)"


definition sameExcept :: "string set \<Rightarrow> entries \<Rightarrow> entries \<Rightarrow> bool" where
  "sameExcept K kvs kvs' = (\<forall>k. k \<notin> K \<longrightarrow> map_of kvs' k = map_of kvs k)"


section \<open>Example generators\<close>

text \<open>
  A Pod on node \<open>n1\<close> with an IP address, two base documents as the resource generator
  writes them for a Pod owned by a ReplicaSet and for a Pod owned by a Job, and peers that
  know one ReplicaSet, one Job and one Node. A peer that does not find the name in its
  store returns the nil map.
\<close>

definition exPod :: Pod where
  "exPod = \<lparr>Spec = \<lparr>NodeName = ''n1''\<rparr>, Status = \<lparr>PodIP = ''10.0.0.5''\<rparr>\<rparr>"

definition exPodNoIP :: Pod where
  "exPodNoIP = \<lparr>Spec = \<lparr>NodeName = ''n1''\<rparr>, Status = \<lparr>PodIP = ''''\<rparr>\<rparr>"

definition exBaseRS :: entries where
  "exBaseRS =
     [(''pod'', VMap (Some [(''name'', VStr ''p1'')])),
      (''replicaset'', VMap (Some [(''name'', VStr ''rs1'')]))]"

definition exBaseJob :: entries where
  "exBaseJob =
     [(''pod'', VMap (Some [(''name'', VStr ''p1'')])),
      (''job'', VMap (Some [(''name'', VStr ''j1'')]))]"

definition exBaseGone :: entries where
  "exBaseGone =
     [(''pod'', VMap (Some [(''name'', VStr ''p1'')])),
      (''replicaset'', VMap (Some [(''name'', VStr ''rs-gone'')]))]"

definition exBaseEmptyName :: entries where
  "exBaseEmptyName =
     [(''pod'', VMap (Some [(''name'', VStr ''p1'')])),
      (''replicaset'', VMap (Some [(''name'', VStr '''')]))]"

definition exReplicaSetGen :: MetaGen where
  "exReplicaSetGen name opts =
     (if name = ''rs1''
      then Some [(''replicaset'', VMap (Some [(''name'', VStr ''rs1'')])),
                 (''deployment'', VMap (Some [(''name'', VStr ''dep1'')]))]
      else None)"

definition exJobGen :: MetaGen where
  "exJobGen name opts =
     (if name = ''j1''
      then Some [(''job'', VMap (Some [(''name'', VStr ''j1'')])),
                 (''cronjob'', VMap (Some [(''name'', VStr ''cj1'')]))]
      else None)"

definition exNodeGen :: MetaGen where
  "exNodeGen name opts =
     (if name = ''n1''
      then Some [(''node'', VMap (Some [(''name'', VStr ''n1''), (''uid'', VStr ''u-n1'')]))]
      else None)"

definition exECS :: mapstr where
  "exECS = Some [(''orchestrator'', VMap (Some [(''cluster'', VMap (Some [(''name'', VStr ''c1'')]))]))]"

definition exStore :: "string \<Rightarrow> Resource \<times> bool" where
  "exStore name =
     (if name = ''p1'' then (PodObj exPod, True)
      else if name = ''rs1'' then (OtherObj ''ReplicaSet'', True)
      else (OtherObj '''', False))"

definition exGen :: pod where
  "exGen =
     \<lparr>store = Some exStore,
      node = None,
      replicaset = Some exReplicaSetGen,
      job = Some exJobGen,
      resourceGenerateK8s = (\<lambda>kind obj opts. Some exBaseRS),
      resourceGenerateECS = (\<lambda>obj. exECS),
      addResourceMetadata = Some \<lparr>Deployment = True, CronJob = True\<rparr>\<rparr>"

text \<open>ECS fields that collide with the native document at \<open>kubernetes.pod.name\<close>.\<close>

definition exECSPod :: mapstr where
  "exECSPod =
     Some [(''kubernetes'', VMap (Some [(''pod'', VMap (Some [(''name'', VStr ''p1-ecs'')]))])),
           (''orchestrator'', VMap (Some [(''cluster'', VMap (Some [(''name'', VStr ''c1'')]))]))]"


lemmas ex_defs =
  exPod_def exPodNoIP_def exBaseRS_def exBaseJob_def exBaseGone_def exBaseEmptyName_def
  exReplicaSetGen_def exJobGen_def exNodeGen_def exECS_def exStore_def exGen_def

lemmas run_defs =
  GenerateK8s_def Generate_def GenerateECS_def GenerateFromName_def DeepUpdate_def
  deploymentHop_def cronjobHop_def nodeHop_def podIPStep_def andThen_def
  putIgnoringError_def valueOrNil_def index_def entriesOf_def GetValue.simps Put.simps

section \<open>Facts about the document operations\<close>

lemma index_None [simp]: "index None k = None"
  by (simp add: index_def)

lemma index_Some [simp]: "index (Some kvs) k = map_of kvs k"
  by (simp add: index_def)

lemma take_idx_neq: "indexDot key = Some idx \<Longrightarrow> take idx key \<noteq> key"
  using indexDot_Some_less [of key idx] by (metis length_take min.absorb4 nat_neq_iff)

lemma take_idx_neq': "indexDot key = Some idx \<Longrightarrow> key \<noteq> take idx key"
  using take_idx_neq by metis

lemma GetValue_empty [simp]: "GetValue key (Some []) = Inl ErrKeyNotFound"
  by (subst GetValue.simps) (simp split: option.splits)

lemma GetValue_None [simp]: "GetValue key None = Inl ErrKeyNotFound"
  by (subst GetValue.simps) (simp split: option.splits)

lemma Put_None [simp]: "Put key v None = Inl NilMapWrite"
  by (subst Put.simps) simp



text \<open>\<open>Put\<close> fails with an error exactly where \<open>GetValue\<close> fails with it.\<close>

lemma Put_error_Get: "Put key v m = Inr (Inl e) \<Longrightarrow> GetValue key m = Inl e"
proof (induction key v m rule: Put.induct)
  case (1 key v data)
  show ?case
    using "1.prems" "1.IH"
    apply (subst (asm) Put.simps)
    apply (subst GetValue.simps)
    apply (auto simp: update_conv' take_idx_neq take_idx_neq'
                split: option.splits val.splits sum.splits)
    done
qed


text \<open>\<open>deepUpdateMap\<close> removes no key, and leaves alone the keys that \<open>d\<close> does not have.\<close>

lemma deepUpdateMap_keeps_key:
  "map_of m k \<noteq> None \<Longrightarrow> map_of (deepUpdateMap m d) k \<noteq> None"
  by (induction d arbitrary: m) (auto simp: update_conv' split: val.splits)

lemma deepUpdateMap_other_key:
  "map_of d k = None \<Longrightarrow> map_of (deepUpdateMap m d) k = map_of m k"
  by (induction d arbitrary: m) (auto simp: update_conv' split: val.splits if_splits)

subsection \<open>Writing under a key with one dot\<close>

lemma sameExcept_refl [simp]: "sameExcept K kvs kvs"
  by (simp add: sameExcept_def)













subsection \<open>The four steps of \<open>GenerateK8s\<close>\<close>

lemma valueOrNil_VStr [simp]: "valueOrNil r = VStr n \<longleftrightarrow> r = Inr (VStr n)"
  by (cases r) (auto simp: valueOrNil_def)

lemma valueOrNil_Inr [simp]: "valueOrNil (Inr v) = v"
  by (simp add: valueOrNil_def)

lemma andThen_Inr [simp]: "andThen (Inr x) f = f x"
  by (simp add: andThen_def)

lemma andThen_Inl [simp]: "andThen (Inl pn) f = Inl pn"
  by (simp add: andThen_def)









lemma firstSeg_consts [simp]:
  "firstSeg ''deployment.name'' = ''deployment''"
  "firstSeg ''cronjob.name'' = ''cronjob''"
  "firstSeg ''node.name'' = ''node''"
  "firstSeg ''pod.ip'' = ''pod''"
  "firstSeg ''replicaset.name'' = ''replicaset''"
  "firstSeg ''job.name'' = ''job''"
  by (simp_all add: firstSeg_def)




subsection \<open>\<open>DeepUpdate\<close> is the deep merge of the specification\<close>

lemma wfEntries_Nil [simp]: "wfEntries []"
  by (simp add: wfEntries_def)

lemma wfEntries_Cons:
  "wfEntries ((k, v) # d) \<longleftrightarrow> map_of d k = None \<and> wfVal v \<and> wfEntries d"
  by (auto simp: wfEntries_def map_of_eq_None_iff)

lemma wfEntries_entriesOf: "wfVal (VMap val) \<Longrightarrow> wfEntries (entriesOf val)"
  by (cases val) (simp_all add: wfEntries_def entriesOf_def)

lemma wfEntries_map_of: "wfEntries m \<Longrightarrow> map_of m k = Some v \<Longrightarrow> wfVal v"
  by (auto simp: wfEntries_def list_all_iff dest: map_of_SomeD)

lemma wfEntries_update: "wfEntries m \<Longrightarrow> wfVal v \<Longrightarrow> wfEntries (AList.update k v m)"
proof (induction m)
  case Nil
  then show ?case by (simp add: wfEntries_def)
next
  case (Cons a m)
  obtain k' v' where a: "a = (k', v')" by (cases a)
  from Cons.prems(1) a have tl: "wfEntries m" and hd: "wfVal v'" and no: "map_of m k' = None"
    by (simp_all add: wfEntries_Cons)
  show ?case
  proof (cases "k' = k")
    case True
    with a tl no Cons.prems(2) show ?thesis
      by (simp add: wfEntries_Cons)
  next
    case False
    with a tl no hd Cons.IH [OF tl Cons.prems(2)] show ?thesis
      by (simp add: wfEntries_Cons update_conv')
  qed
qed

lemma deepUpdate_wf:
  "wfEntries m \<Longrightarrow> wfEntries d \<Longrightarrow> wfEntries (deepUpdateMap m d)"
  "(\<And>v. old = Some v \<Longrightarrow> wfVal v) \<Longrightarrow> wfVal (VMap val) \<Longrightarrow> wfVal (deepUpdateValue old val)"
proof (induction m d and old val rule: deepUpdateMap_deepUpdateValue.induct)
  case (1 m)
  then show ?case by simp
next
  case (2 m k v d)
  from "2.prems"(2) have vd: "wfVal v" "wfEntries d"
    by (simp_all add: wfEntries_Cons)
  let ?m' = "case v of VMap val \<Rightarrow> AList.update k (deepUpdateValue (map_of m k) val) m
             | _ \<Rightarrow> AList.update k v m"
  have "wfEntries ?m'"
  proof (cases v)
    case (VMap val)
    have "wfVal (deepUpdateValue (map_of m k) val)"
      using "2.IH"(1) [OF VMap] wfEntries_map_of [OF "2.prems"(1)] vd(1) VMap by blast
    with VMap "2.prems"(1) show ?thesis
      by (simp add: wfEntries_update)
  qed (use "2.prems"(1) vd in \<open>simp_all add: wfEntries_update\<close>)
  from "2.IH"(2) [OF this vd(2)] show ?case
    by simp
next
  case (3 old val)
  show ?case
  proof (cases old)
    case None
    with "3.prems"(2) show ?thesis by simp
  next
    case (Some va)
    show ?thesis
    proof (cases va)
      case (VMap am)
      show ?thesis
      proof (cases am)
        case None
        with Some VMap "3.prems"(2) show ?thesis by simp
      next
        case (Some sub)
        from "3.prems"(1) \<open>old = Some va\<close> VMap Some have "wfEntries sub"
          by (simp add: wfEntries_def)
        from "3.IH" [OF \<open>old = Some va\<close> VMap Some this wfEntries_entriesOf [OF "3.prems"(2)]]
        show ?thesis
          using \<open>old = Some va\<close> VMap Some by (simp add: wfEntries_def)
      qed
    qed (use Some "3.prems"(2) in simp_all)
  qed
qed

lemma update_absent: "map_of m k = None \<Longrightarrow> AList.update k v m = m @ [(k, v)]"
  by (induction m) (auto split: if_splits)

lemma update_present:
  "distinct (map fst m) \<Longrightarrow> map_of m k = Some va \<Longrightarrow>
   AList.update k v m = map (\<lambda>kv. if fst kv = k then (k, v) else kv) m"
proof (induction m)
  case Nil
  then show ?case by simp
next
  case (Cons a m)
  show ?case
  proof (cases "fst a = k")
    case True
    with Cons.prems(1) have "\<forall>kv \<in> set m. fst kv \<noteq> k"
      by (auto simp: image_iff)
    then have "map (\<lambda>kv. if fst kv = k then (k, v) else kv) m = m"
      by (induction m) auto
    with True show ?thesis by simp
  next
    case False
    with Cons show ?thesis by simp
  qed
qed

lemma specMerge_step:
  assumes dm: "distinct (map fst m)" and nk: "map_of d k = None"
    and v': "v' = (case map_of m k of None \<Rightarrow> v | Some va \<Rightarrow> specMergeValue va v)"
  shows "specMerge (AList.update k v' m) d = specMerge m ((k, v) # d)"
proof (cases "map_of m k")
  case None
  then have km: "\<forall>kv \<in> set m. fst kv \<noteq> k"
    by (auto simp: map_of_eq_None_iff)
  from nk have kd: "\<forall>kv \<in> set d. fst kv \<noteq> k"
    by (auto simp: map_of_eq_None_iff)
  from None v' have u: "AList.update k v' m = m @ [(k, v)]"
    by (simp add: update_absent)
  have a: "map (\<lambda>kv. (fst kv, case map_of d (fst kv) of None \<Rightarrow> snd kv
                                  | Some vb \<Rightarrow> specMergeValue (snd kv) vb)) m
         = map (\<lambda>kv. (fst kv, case map_of ((k, v) # d) (fst kv) of None \<Rightarrow> snd kv
                                  | Some vb \<Rightarrow> specMergeValue (snd kv) vb)) m"
    using km by (intro map_cong) auto
  have b: "filter (\<lambda>kv. map_of (m @ [(k, v)]) (fst kv) = None) d
         = filter (\<lambda>kv. map_of m (fst kv) = None) d"
    using kd by (intro filter_cong) (auto simp: map_add_def split: option.splits)
  show ?thesis
    using None nk a b by (simp add: u specMerge.simps [of _ d] specMerge.simps [of m])
next
  case (Some va)
  with v' have v'': "v' = specMergeValue va v"
    by simp
  from dm Some have u: "AList.update k v' m = map (\<lambda>kv. if fst kv = k then (k, v') else kv) m"
    by (rule update_present)
  have same: "snd kv = va" if "kv \<in> set m" "fst kv = k" for kv
    using that dm Some by (metis map_of_is_SomeI option.inject prod.collapse)
  have a: "map (\<lambda>kv. (fst kv, case map_of d (fst kv) of None \<Rightarrow> snd kv
                                  | Some vb \<Rightarrow> specMergeValue (snd kv) vb))
             (map (\<lambda>kv. if fst kv = k then (k, v') else kv) m)
         = map (\<lambda>kv. (fst kv, case map_of ((k, v) # d) (fst kv) of None \<Rightarrow> snd kv
                                  | Some vb \<Rightarrow> specMergeValue (snd kv) vb)) m"
    unfolding map_map
    using same nk v'' by (intro map_cong) (auto simp: o_def)
  have b: "filter (\<lambda>kv. map_of (AList.update k v' m) (fst kv) = None) d
         = filter (\<lambda>kv. map_of m (fst kv) = None) d"
    using Some by (intro filter_cong) (auto simp: update_conv')
  show ?thesis
    using Some a b
    by (simp add: specMerge.simps [of _ d] specMerge.simps [of m] u [symmetric])
qed

lemma specMergeValue_leaf: "\<forall>bm. vb \<noteq> VMap bm \<Longrightarrow> specMergeValue va vb = vb"
  by (cases vb) (simp_all add: specMergeValue.simps)

lemma deepUpdate_eq_specMerge:
  "wfEntries m \<Longrightarrow> wfEntries d \<Longrightarrow> deepUpdateMap m d = specMerge m d"
  "(\<And>v. old = Some v \<Longrightarrow> wfVal v) \<Longrightarrow> wfVal (VMap val) \<Longrightarrow>
   deepUpdateValue old val
     = (case old of None \<Rightarrow> VMap val | Some va \<Rightarrow> specMergeValue va (VMap val))"
proof (induction m d and old val rule: deepUpdateMap_deepUpdateValue.induct)
  case (1 m)
  show ?case by (simp add: specMerge.simps)
next
  case (2 m k v d)
  from "2.prems"(2) have nk: "map_of d k = None" and wv: "wfVal v" and wd: "wfEntries d"
    by (simp_all add: wfEntries_Cons)
  from "2.prems"(1) have dm: "distinct (map fst m)"
    by (simp add: wfEntries_def)
  define v' where "v' = (case map_of m k of None \<Rightarrow> v | Some va \<Rightarrow> specMergeValue va v)"
  let ?m' = "case v of VMap val \<Rightarrow> AList.update k (deepUpdateValue (map_of m k) val) m
             | _ \<Rightarrow> AList.update k v m"
  have new: "?m' = AList.update k v' m"
  proof (cases v)
    case (VMap val)
    have "deepUpdateValue (map_of m k) val
            = (case map_of m k of None \<Rightarrow> VMap val | Some va \<Rightarrow> specMergeValue va (VMap val))"
    proof (rule "2.IH"(1) [OF VMap])
      show "wfVal va" if "map_of m k = Some va" for va
        using that by (rule wfEntries_map_of [OF "2.prems"(1)])
      show "wfVal (VMap val)"
        using wv VMap by simp
    qed
    then have "deepUpdateValue (map_of m k) val = v'"
      by (simp only: v'_def VMap)
    with VMap show ?thesis by simp
  qed (simp_all add: v'_def specMergeValue_leaf split: option.splits)
  have "wfEntries ?m'"
  proof (cases v)
    case (VMap val)
    have "wfVal (deepUpdateValue (map_of m k) val)"
      using deepUpdate_wf(2) wfEntries_map_of [OF "2.prems"(1)] wv VMap by blast
    with VMap "2.prems"(1) show ?thesis
      by (simp add: wfEntries_update)
  qed (use "2.prems"(1) in \<open>simp_all add: wfEntries_update\<close>)
  from "2.IH"(2) [OF this wd] have "deepUpdateMap m ((k, v) # d) = specMerge ?m' d"
    by simp
  also have "\<dots> = specMerge (AList.update k v' m) d"
    by (simp only: new)
  also have "\<dots> = specMerge m ((k, v) # d)"
    using dm nk v'_def by (rule specMerge_step)
  finally show ?case .
next
  case (3 old val)
  show ?case
  proof (cases old)
    case None
    then show ?thesis by simp
  next
    case (Some va)
    show ?thesis
    proof (cases va)
      case (VMap am)
      show ?thesis
      proof (cases am)
        case None
        with Some VMap show ?thesis by (simp add: specMergeValue.simps)
      next
        case (Some sub)
        from "3.prems"(1) \<open>old = Some va\<close> VMap Some have "wfEntries sub"
          by (simp add: wfEntries_def)
        from "3.IH" [OF \<open>old = Some va\<close> VMap Some this wfEntries_entriesOf [OF "3.prems"(2)]]
        show ?thesis
          using \<open>old = Some va\<close> VMap Some by (simp add: specMergeValue.simps)
      qed
    qed (use Some in \<open>simp_all add: specMergeValue.simps\<close>)
  qed
qed

lemma map_of_deepUpdateMap:
  "wfEntries d \<Longrightarrow>
   map_of (deepUpdateMap m d) k =
     (case map_of d k of
        None \<Rightarrow> map_of m k
      | Some vb \<Rightarrow> Some (case vb of VMap val \<Rightarrow> deepUpdateValue (map_of m k) val | _ \<Rightarrow> vb))"
proof (induction d arbitrary: m)
  case Nil
  then show ?case by simp
next
  case (Cons a d)
  obtain k' v' where a: "a = (k', v')" by (cases a)
  from Cons.prems a have nk: "map_of d k' = None" and wd: "wfEntries d"
    by (simp_all add: wfEntries_Cons)
  define x where "x = (case v' of VMap val \<Rightarrow> deepUpdateValue (map_of m k') val | _ \<Rightarrow> v')"
  have step: "deepUpdateMap m (a # d) = deepUpdateMap (AList.update k' x m) d"
    unfolding a x_def by (cases v') (simp_all del: deepUpdateValue.simps)
  show ?case
  proof (cases "k' = k")
    case True
    with nk have "map_of (deepUpdateMap (AList.update k' x m) d) k = Some x"
      by (simp add: deepUpdateMap_other_key update_conv')
    with True a step show ?thesis
      by (simp add: x_def del: deepUpdateValue.simps cong: val.case_cong)
  next
    case False
    have "map_of (AList.update k' x m) k = map_of m k"
      using False by (simp add: update_conv')
    with Cons.IH [OF wd, of "AList.update k' x m"] False a step show ?thesis
      by (simp del: deepUpdateValue.simps cong: option.case_cong val.case_cong)
  qed
qed

lemma deepUpdateMap_leaf_wins:
  "wfEntries d \<Longrightarrow> getPath (k # ks) (VMap (Some d)) = Some v \<Longrightarrow> \<forall>bm. v \<noteq> VMap bm \<Longrightarrow>
   getPath (k # ks) (VMap (Some (deepUpdateMap m d))) = Some v"
proof (induction ks arbitrary: k d m)
  case Nil
  from Nil.prems(2) have "map_of d k = Some v"
    by (simp split: option.splits)
  with Nil.prems(1,3) show ?case
    by (cases v) (simp_all add: map_of_deepUpdateMap)
next
  case (Cons k2 ks)
  from Cons.prems(2) obtain bd where vb: "map_of d k = Some (VMap (Some bd))"
    and rest: "getPath (k2 # ks) (VMap (Some bd)) = Some v"
    by (auto split: option.splits elim: getPath.elims)
  from Cons.prems(1) vb have wbd: "wfEntries bd"
    using wfEntries_map_of [of d k "VMap (Some bd)"] by (simp add: wfEntries_def)
  have res: "map_of (deepUpdateMap m d) k = Some (deepUpdateValue (map_of m k) (Some bd))"
    using Cons.prems(1) vb by (simp add: map_of_deepUpdateMap del: deepUpdateValue.simps)
  show ?case
  proof (cases "\<exists>sub. map_of m k = Some (VMap (Some sub))")
    case True
    then obtain sub where "map_of m k = Some (VMap (Some sub))" ..
    with res have "map_of (deepUpdateMap m d) k = Some (VMap (Some (deepUpdateMap sub bd)))"
      by (simp add: entriesOf_def)
    with Cons.IH [OF wbd rest Cons.prems(3), of sub] show ?thesis
      by simp
  next
    case False
    then have "deepUpdateValue (map_of m k) (Some bd) = VMap (Some bd)"
      by (auto split: option.splits val.splits)
    with res rest show ?thesis
      by simp
  qed
qed

subsection \<open>Two runs with the same answers\<close>







subsection \<open>The generator keeps documents well formed\<close>

lemma wfVal_map_of: "wfVal (VMap (Some kvs)) \<Longrightarrow> map_of kvs k = Some v \<Longrightarrow> wfVal v"
  using wfEntries_map_of [of kvs k v] by (simp add: wfEntries_def)

lemma wfVal_update:
  "wfVal (VMap (Some kvs)) \<Longrightarrow> wfVal v \<Longrightarrow> wfVal (VMap (Some (AList.update k v kvs)))"
  using wfEntries_update [of kvs v k] by (simp add: wfEntries_def)

lemma Put_wf:
  "Put key v data = Inr (Inr m') \<Longrightarrow> wfVal (VMap data) \<Longrightarrow> wfVal v \<Longrightarrow> wfVal (VMap m')"
proof (induction key v data arbitrary: m' rule: Put.induct)
  case (1 key v data)
  from "1.prems"(1) obtain kvs where kvs: "data = Some kvs"
    by (cases data) simp_all
  show ?case
  proof (cases "map_of kvs key")
    case (Some old)
    with "1.prems" kvs show ?thesis
      by (simp add: Put.simps [of key v "Some kvs"] del: wfVal.simps) (auto intro: wfVal_update)
  next
    case None
    show ?thesis
    proof (cases "indexDot key")
      case nd: None
      with None "1.prems" kvs show ?thesis
        by (simp add: Put.simps [of key v "Some kvs"] del: wfVal.simps) (auto intro: wfVal_update)
    next
      case (Some idx)
      let ?k = "take idx key" and ?rest = "drop (idx + 1) key"
      show ?thesis
      proof (cases "map_of kvs ?k")
        case sub: None
        with None Some "1.prems"(1) kvs obtain d' where
          p: "Put ?rest v (Some []) = Inr (Inr d')" and m': "m' = Some (AList.update ?k (VMap d') kvs)"
          by (auto simp: Put.simps [of key v "Some kvs"] split: sum.splits)
        from "1.IH"(1) [OF kvs None Some sub p _ "1.prems"(3)] have "wfVal (VMap d')"
          by simp
        with m' "1.prems"(2) kvs show ?thesis
          by (auto simp del: wfVal.simps intro: wfVal_update)
      next
        case sub: (Some x)
        with None Some "1.prems"(1) kvs obtain d d' where x: "x = VMap d" and
          p: "Put ?rest v d = Inr (Inr d')" and m': "m' = Some (AList.update ?k (VMap d') kvs)"
          by (auto simp: Put.simps [of key v "Some kvs"] split: sum.splits val.splits)
        from "1.prems"(2) kvs have "wfVal (VMap (Some kvs))"
          by simp
        from wfVal_map_of [OF this, of ?k "VMap d"] sub x have "wfVal (VMap d)"
          by simp
        from "1.IH"(2) [OF kvs None Some _ x p this "1.prems"(3)] sub x have "wfVal (VMap d')"
          by simp
        with m' "1.prems"(2) kvs show ?thesis
          by (auto simp del: wfVal.simps intro: wfVal_update)
      qed
    qed
  qed
qed

lemma GetValue_wf: "GetValue key data = Inr v \<Longrightarrow> wfVal (VMap data) \<Longrightarrow> wfVal v"
proof (induction key data rule: GetValue.induct)
  case (1 key data)
  show ?case
  proof (cases data)
    case None
    with "1.prems"(1) show ?thesis by simp
  next
    case (Some kvs)
    show ?thesis
    proof (cases "map_of kvs key")
      case found: (Some x)
      with "1.prems" Some show ?thesis
        by (auto simp: GetValue.simps [of key "Some kvs"] simp del: wfVal.simps dest: wfVal_map_of)
    next
      case None
      with "1.prems"(1) Some obtain idx d where idx: "indexDot key = Some idx"
        and sub: "map_of kvs (take idx key) = Some (VMap d)"
        and g: "GetValue (drop (idx + 1) key) d = Inr v"
        by (auto simp: GetValue.simps [of key "Some kvs"] split: option.splits val.splits)
      from "1.prems"(2) Some have "wfVal (VMap (Some kvs))"
        by simp
      from wfVal_map_of [OF this sub] have "wfVal (VMap d)" .
      from "1.IH" [OF _ idx _ refl g this] None Some sub show ?thesis
        by simp
    qed
  qed
qed

lemma valueOrNil_wf: "wfVal (VMap m) \<Longrightarrow> wfVal (valueOrNil (GetValue key m))"
  by (cases "GetValue key m") (auto simp: valueOrNil_def dest: GetValue_wf)

lemma putIgnoringError_wf:
  "putIgnoringError key v out = Inr out' \<Longrightarrow> wfVal (VMap out) \<Longrightarrow> wfVal v \<Longrightarrow> wfVal (VMap out')"
  by (auto simp: putIgnoringError_def split: sum.splits dest: Put_wf)

lemma andThen_eq_Inr: "andThen r f = Inr y \<longleftrightarrow> (\<exists>x. r = Inr x \<and> f x = Inr y)"
  by (cases r) (simp_all add: andThen_def)

lemma deploymentHop_wf:
  assumes h: "deploymentHop p cfg (out, cs) = Inr (out', cs')"
    and w: "wfVal (VMap out)" and wp: "wfPeer (replicaset p)"
  shows "wfVal (VMap out')"
proof -
  from h have "out' = out
      \<or> (\<exists>rs n. replicaset p = Some rs
            \<and> putIgnoringError ''deployment.name''
                 (valueOrNil (GetValue ''deployment.name'' (rs n []))) out = Inr out')"
    by (auto simp: deploymentHop_def Let_def andThen_eq_Inr
             split: if_splits option.splits val.splits)
  then show ?thesis
  proof
    assume "out' = out"
    with w show ?thesis by simp
  next
    assume "\<exists>rs n. replicaset p = Some rs
            \<and> putIgnoringError ''deployment.name''
                 (valueOrNil (GetValue ''deployment.name'' (rs n []))) out = Inr out'"
    then obtain rs n where rs: "replicaset p = Some rs"
      and put: "putIgnoringError ''deployment.name''
                 (valueOrNil (GetValue ''deployment.name'' (rs n []))) out = Inr out'"
      by blast
    from wp rs have "wfVal (VMap (rs n []))"
      by (simp add: wfPeer_def)
    then have "wfVal (valueOrNil (GetValue ''deployment.name'' (rs n [])))"
      by (rule valueOrNil_wf)
    with put w show ?thesis
      by (rule putIgnoringError_wf)
  qed
qed

lemma cronjobHop_wf:
  assumes h: "cronjobHop p cfg (out, cs) = Inr (out', cs')"
    and w: "wfVal (VMap out)" and wp: "wfPeer (replicaset p)"
  shows "wfVal (VMap out')"
proof -
  from h have "out' = out
      \<or> (\<exists>rs n. replicaset p = Some rs
            \<and> putIgnoringError ''cronjob.name''
                 (valueOrNil (GetValue ''cronjob.name'' (rs n []))) out = Inr out')"
    by (auto simp: cronjobHop_def Let_def andThen_eq_Inr
             split: if_splits option.splits val.splits)
  then show ?thesis
  proof
    assume "out' = out"
    with w show ?thesis by simp
  next
    assume "\<exists>rs n. replicaset p = Some rs
            \<and> putIgnoringError ''cronjob.name''
                 (valueOrNil (GetValue ''cronjob.name'' (rs n []))) out = Inr out'"
    then obtain rs n where rs: "replicaset p = Some rs"
      and put: "putIgnoringError ''cronjob.name''
                 (valueOrNil (GetValue ''cronjob.name'' (rs n []))) out = Inr out'"
      by blast
    from wp rs have "wfVal (VMap (rs n []))"
      by (simp add: wfPeer_def)
    then have "wfVal (valueOrNil (GetValue ''cronjob.name'' (rs n [])))"
      by (rule valueOrNil_wf)
    with put w show ?thesis
      by (rule putIgnoringError_wf)
  qed
qed

lemma nodeHop_wf:
  assumes h: "nodeHop p po (out, cs) = Inr (out', cs')"
    and w: "wfVal (VMap out)" and wp: "wfPeer (node p)"
  shows "wfVal (VMap out')"
proof -
  let ?nn = "NodeName (Spec po)"
  from h have "(\<exists>n meta. node p = Some n \<and> n ?nn [WithMetadata ''node''] = Some meta
            \<and> putIgnoringError ''node''
                 (case map_of meta ''node'' of None \<Rightarrow> VNil | Some v \<Rightarrow> v) out = Inr out')
      \<or> putIgnoringError ''node.name'' (VStr ?nn) out = Inr out'"
    by (auto simp: nodeHop_def Let_def andThen_eq_Inr split: if_splits option.splits)
  then show ?thesis
  proof
    assume "\<exists>n meta. node p = Some n \<and> n ?nn [WithMetadata ''node''] = Some meta
            \<and> putIgnoringError ''node''
                 (case map_of meta ''node'' of None \<Rightarrow> VNil | Some v \<Rightarrow> v) out = Inr out'"
    then obtain n meta where n: "node p = Some n"
      and meta: "n ?nn [WithMetadata ''node''] = Some meta"
      and put: "putIgnoringError ''node''
                 (case map_of meta ''node'' of None \<Rightarrow> VNil | Some v \<Rightarrow> v) out = Inr out'"
      by blast
    from wp n have "\<forall>name opts. wfVal (VMap (n name opts))"
      by (simp add: wfPeer_def)
    then have "wfVal (VMap (n ?nn [WithMetadata ''node'']))"
      by blast
    then have wm: "wfVal (VMap (Some meta))"
      by (simp only: meta)
    have "wfVal (case map_of meta ''node'' of None \<Rightarrow> VNil | Some v \<Rightarrow> v)"
    proof (cases "map_of meta ''node''")
      case None
      then show ?thesis by simp
    next
      case (Some v)
      from wfVal_map_of [OF wm Some] Some show ?thesis by simp
    qed
    with put w show ?thesis
      by (rule putIgnoringError_wf)
  next
    assume "putIgnoringError ''node.name'' (VStr ?nn) out = Inr out'"
    from this w show ?thesis
      by (rule putIgnoringError_wf) simp
  qed
qed

lemma podIPStep_wf:
  assumes h: "podIPStep po (out, cs) = Inr (out', cs')" and w: "wfVal (VMap out)"
  shows "wfVal (VMap out')"
proof -
  from h have "out' = out \<or> putIgnoringError ''pod.ip'' (VStr (PodIP (Status po))) out = Inr out'"
    by (auto simp: podIPStep_def andThen_eq_Inr split: if_splits)
  then show ?thesis
  proof
    assume "out' = out"
    with w show ?thesis by simp
  next
    assume "putIgnoringError ''pod.ip'' (VStr (PodIP (Status po))) out = Inr out'"
    from this w show ?thesis
      by (rule putIgnoringError_wf) simp
  qed
qed

lemma GenerateK8s_wf:
  assumes g: "GenerateK8s p r opts = Inr (k8s, calls)" and w: "wfGenerator p"
  shows "wfVal (VMap k8s)"
proof (cases r)
  case (OtherObj kind)
  with g show ?thesis by (simp add: GenerateK8s_def)
next
  case (PodObj po)
  let ?base = "resourceGenerateK8s p ''pod'' r opts"
  from w have wb: "wfVal (VMap ?base)" and wr: "wfPeer (replicaset p)" and wn: "wfPeer (node p)"
    by (simp_all add: wfGenerator_def)
  from g PodObj obtain cfg s1 s2 s3 where
    h1: "deploymentHop p cfg (?base, []) = Inr s1"
    and h2: "cronjobHop p cfg s1 = Inr s2"
    and h3: "nodeHop p po s2 = Inr s3"
    and h4: "podIPStep po s3 = Inr (k8s, calls)"
    by (auto simp: GenerateK8s_def andThen_eq_Inr split: option.splits)
  obtain o1 c1 o2 c2 o3 c3 where s: "s1 = (o1, c1)" "s2 = (o2, c2)" "s3 = (o3, c3)"
    by (cases s1, cases s2, cases s3) blast
  from h1 s have "wfVal (VMap o1)"
    using wb wr by (auto intro: deploymentHop_wf)
  with h2 s have "wfVal (VMap o2)"
    using wr by (auto intro: cronjobHop_wf)
  with h3 s have "wfVal (VMap o3)"
    using wn by (auto intro: nodeHop_wf)
  with h4 s show ?thesis
    by (auto intro: podIPStep_wf)
qed

section \<open>The claims\<close>

subsection \<open>C1: the CronJob hop and the Job resolver\<close>

text \<open>
  C1 says that the CronJob hop passes \<open>job.name\<close> to the Job resolver's
  \<^verbatim>\<open>GenerateFromName\<close>. For a Pod of Job \<open>j1\<close>, with a Job resolver that knows \<open>j1\<close>
  and its CronJob \<open>cj1\<close>, the code asks the ReplicaSet resolver for \<open>j1\<close> instead: the only
  call of the run is to the ReplicaSet resolver, the Job resolver is never called, and
  \<open>cronjob.name\<close> is not \<open>cj1\<close> but the nil value that the miss of the ReplicaSet resolver
  leaves.
\<close>

theorem CronJob_hop_asks_ReplicaSet_resolver:
  "GenerateK8s (exGen\<lparr>resourceGenerateK8s := (\<lambda>kind obj opts. Some exBaseJob)\<rparr>) (PodObj exPod) [] =
     Inr (Some [(''pod'', VMap (Some [(''name'', VStr ''p1''), (''ip'', VStr ''10.0.0.5'')])),
                (''job'', VMap (Some [(''name'', VStr ''j1'')])),
                (''cronjob'', VMap (Some [(''name'', VNil)])),
                (''node'', VMap (Some [(''name'', VStr ''n1'')]))],
          [ReplicaSetGenerateFromName ''j1'' []])
   \<and> GetValue ''cronjob.name'' (exJobGen ''j1'' []) = Inr (VStr ''cj1'')"
  by (simp add: ex_defs run_defs)

subsection \<open>C2: a resolver that is not configured\<close>

text \<open>
  C2 says that a hop whose resolver is nil is skipped without a panic and that no call is
  made on an absent collaborator. With no ReplicaSet resolver, a Job resolver, the CronJob
  flag set and a Pod of Job \<open>j1\<close>, the CronJob hop calls \<^verbatim>\<open>GenerateFromName\<close> on the
  nil ReplicaSet resolver and the run panics.
\<close>

theorem CronJob_hop_panics_without_ReplicaSet_resolver:
  "GenerateK8s
     (exGen\<lparr>replicaset := None, resourceGenerateK8s := (\<lambda>kind obj opts. Some exBaseJob)\<rparr>)
     (PodObj exPod) [] = Inl NilDereference"
  by (simp add: ex_defs run_defs)

subsection \<open>C3: a hop that fails leaves no key\<close>

text \<open>
  C3 says that after a hop that fails the document has no key at all for the dependent
  field. For a Pod of ReplicaSet \<open>rs-gone\<close>, which the ReplicaSet resolver does not find,
  the code compares the nil interface with the empty string, finds them different and
  writes \<open>deployment.name\<close> with the nil value.
\<close>

theorem missed_lookup_writes_nil_deployment_name:
  "GenerateK8s (exGen\<lparr>resourceGenerateK8s := (\<lambda>kind obj opts. Some exBaseGone), job := None\<rparr>)
     (PodObj exPod) [] =
     Inr (Some [(''pod'', VMap (Some [(''name'', VStr ''p1''), (''ip'', VStr ''10.0.0.5'')])),
                (''replicaset'', VMap (Some [(''name'', VStr ''rs-gone'')])),
                (''deployment'', VMap (Some [(''name'', VNil)])),
                (''node'', VMap (Some [(''name'', VStr ''n1'')]))],
          [ReplicaSetGenerateFromName ''rs-gone'' []])
   \<and> exReplicaSetGen ''rs-gone'' [] = None"
  by (simp add: ex_defs run_defs)

subsection \<open>C4: a resource that is not a Pod\<close>

text \<open>
  C4 says that for a resource that is not a Pod both \<^verbatim>\<open>GenerateK8s\<close> and
  \<^verbatim>\<open>Generate\<close> return nil or the empty document. \<^verbatim>\<open>GenerateK8s\<close> does return
  nil. \<^verbatim>\<open>Generate\<close> does not: for a Node it returns a document with the key
  \<open>kubernetes\<close>, bound to the nil map, and the ECS fields of the Node.
\<close>

theorem Generate_non_Pod_not_nil:
  "Generate exGen (OtherObj ''Node'') [] =
     Inr (Some [(''kubernetes'', VMap None),
                (''orchestrator'', VMap (Some [(''cluster'', VMap (Some [(''name'', VStr ''c1'')]))]))],
          [])
   \<and> Generate exGen (OtherObj ''Node'') [] \<noteq> Inr (None, [])
   \<and> Generate exGen (OtherObj ''Node'') [] \<noteq> Inr (Some [], [])"
  by (simp add: ex_defs run_defs)

text \<open>
  C4 as amended: for every resource that is not a Pod, \<^verbatim>\<open>GenerateK8s\<close> returns nil
  and calls no peer; \<^verbatim>\<open>Generate\<close> returns, without a panic and without a call to a
  peer, the document \<open>{kubernetes: nil}\<close> deep-updated with the ECS fields of the resource.
  That document is never nil, it always has the key \<open>kubernetes\<close>, and the value of that
  key is the nil map whenever the ECS fields have no key \<open>kubernetes\<close> of their own.
\<close>

theorem non_Pod_GenerateK8s_nil_Generate_kubernetes_nil:
  "GenerateK8s p (OtherObj kind) opts = Inr (None, [])
   \<and> (\<exists>doc. Generate p (OtherObj kind) opts = Inr (Some doc, [])
        \<and> doc = deepUpdateMap [(''kubernetes'', VMap None)]
                  (entriesOf (GenerateECS p (OtherObj kind)))
        \<and> map_of doc ''kubernetes'' \<noteq> None
        \<and> (index (GenerateECS p (OtherObj kind)) ''kubernetes'' = None
             \<longrightarrow> map_of doc ''kubernetes'' = Some (VMap None)))"
proof -
  define ecs where "ecs = entriesOf (GenerateECS p (OtherObj kind))"
  define doc where "doc = deepUpdateMap [(''kubernetes'', VMap None)] ecs"
  have k8s: "GenerateK8s p (OtherObj kind) opts = Inr (None, [])"
    by (simp add: GenerateK8s_def)
  have gen: "Generate p (OtherObj kind) opts = Inr (Some doc, [])"
    by (simp add: Generate_def k8s andThen_def DeepUpdate_def doc_def ecs_def)
  have has: "map_of doc ''kubernetes'' \<noteq> None"
    unfolding doc_def by (rule deepUpdateMap_keeps_key) simp
  have nil: "map_of doc ''kubernetes'' = Some (VMap None)"
    if "index (GenerateECS p (OtherObj kind)) ''kubernetes'' = None"
  proof -
    from that have "map_of ecs ''kubernetes'' = None"
      by (simp add: index_def entriesOf_def ecs_def split: option.splits)
    then show ?thesis
      unfolding doc_def by (simp add: deepUpdateMap_other_key)
  qed
  have "\<exists>d. Generate p (OtherObj kind) opts = Inr (Some d, [])
        \<and> d = deepUpdateMap [(''kubernetes'', VMap None)]
                  (entriesOf (GenerateECS p (OtherObj kind)))
        \<and> map_of d ''kubernetes'' \<noteq> None
        \<and> (index (GenerateECS p (OtherObj kind)) ''kubernetes'' = None
             \<longrightarrow> map_of d ''kubernetes'' = Some (VMap None))"
  proof (intro exI conjI impI)
    show "Generate p (OtherObj kind) opts = Inr (Some doc, [])" by (rule gen)
    show "doc = deepUpdateMap [(''kubernetes'', VMap None)]
                  (entriesOf (GenerateECS p (OtherObj kind)))"
      by (simp only: doc_def ecs_def)
    show "map_of doc ''kubernetes'' \<noteq> None" by (rule has)
    show "map_of doc ''kubernetes'' = Some (VMap None)"
      if "index (GenerateECS p (OtherObj kind)) ''kubernetes'' = None"
      using that by (rule nil)
  qed
  with k8s show ?thesis
    by (rule conjI)
qed

theorem non_Pod_witness:
  "GenerateK8s exGen (OtherObj ''Node'') [] = Inr (None, [])
   \<and> index (GenerateECS exGen (OtherObj ''Node'')) ''kubernetes'' = None
   \<and> (\<exists>doc. Generate exGen (OtherObj ''Node'') [] = Inr (Some doc, [])
        \<and> map_of doc ''kubernetes'' = Some (VMap None))"
proof -
  have h: "index (GenerateECS exGen (OtherObj ''Node'')) ''kubernetes'' = None"
    by (simp add: ex_defs GenerateECS_def)
  from non_Pod_GenerateK8s_nil_Generate_kubernetes_nil [of exGen "''Node''" "[]"]
  obtain doc where k: "GenerateK8s exGen (OtherObj ''Node'') [] = Inr (None, [])"
    and g: "Generate exGen (OtherObj ''Node'') [] = Inr (Some doc, [])"
    and n: "index (GenerateECS exGen (OtherObj ''Node'')) ''kubernetes'' = None
             \<longrightarrow> map_of doc ''kubernetes'' = Some (VMap None)"
    by (elim conjE exE)
  from n h have "map_of doc ''kubernetes'' = Some (VMap None)"
    by (rule mp)
  with g have "\<exists>doc. Generate exGen (OtherObj ''Node'') [] = Inr (Some doc, [])
        \<and> map_of doc ''kubernetes'' = Some (VMap None)"
    by (intro exI conjI)
  with k h show ?thesis
    by (intro conjI)
qed

subsection \<open>C5: the merge law\<close>

text \<open>
  C5: \<^verbatim>\<open>Generate(r)\<close> is the document \<open>{kubernetes: GenerateK8s(r)}\<close> deep-merged
  with \<^verbatim>\<open>GenerateECS(r)\<close>, where \<open>specMerge\<close> is the deep merge in the words of the
  specification, and a leaf of the ECS document is found in the result under the same path,
  whatever the native document has there. A panic of \<^verbatim>\<open>GenerateK8s\<close> is the panic of
  \<^verbatim>\<open>Generate\<close>. The documents that the collaborators hand over are Go maps: no map has
  a key twice (\<open>wfGenerator\<close>).
\<close>

theorem Generate_is_deep_merge:
  assumes w: "wfGenerator p"
  shows "(\<forall>pn. GenerateK8s p r opts = Inl pn \<longrightarrow> Generate p r opts = Inl pn)
     \<and> (\<forall>k8s calls. GenerateK8s p r opts = Inr (k8s, calls)
          \<longrightarrow> (\<exists>doc. Generate p r opts = Inr (Some doc, calls)
                 \<and> doc = specMerge [(''kubernetes'', VMap k8s)] (entriesOf (GenerateECS p r))
                 \<and> (\<forall>path v. path \<noteq> [] \<and> getPath path (VMap (GenerateECS p r)) = Some v
                        \<and> (\<forall>bm. v \<noteq> VMap bm)
                      \<longrightarrow> getPath path (VMap (Some doc)) = Some v)))"
proof (intro conjI allI impI)
  fix pn
  assume "GenerateK8s p r opts = Inl pn"
  then show "Generate p r opts = Inl pn"
    by (simp add: Generate_def)
next
  fix k8s calls
  assume a: "GenerateK8s p r opts = Inr (k8s, calls)"
  let ?d = "entriesOf (GenerateECS p r)"
  let ?doc = "deepUpdateMap [(''kubernetes'', VMap k8s)] ?d"
  from GenerateK8s_wf [OF a w] have wk: "wfEntries [(''kubernetes'', VMap k8s)]"
    by (simp add: wfEntries_def)
  from w have "wfVal (VMap (GenerateECS p r))"
    by (simp add: wfGenerator_def GenerateECS_def)
  then have wd: "wfEntries ?d"
    by (rule wfEntries_entriesOf)
  from a have gen: "Generate p r opts = Inr (Some ?doc, calls)"
    by (simp add: Generate_def DeepUpdate_def)
  have eq: "?doc = specMerge [(''kubernetes'', VMap k8s)] ?d"
    using wk wd by (rule deepUpdate_eq_specMerge(1))
  have leaf: "getPath path (VMap (Some ?doc)) = Some v"
    if "path \<noteq> [] \<and> getPath path (VMap (GenerateECS p r)) = Some v \<and> (\<forall>bm. v \<noteq> VMap bm)"
    for path v
  proof -
    from that obtain k ks where path: "path = k # ks"
      by (cases path) auto
    with that obtain d where d: "GenerateECS p r = Some d"
      by (cases "GenerateECS p r") auto
    with wd have "wfEntries d"
      by (simp add: entriesOf_def)
    from deepUpdateMap_leaf_wins [OF this, of k ks v "[(''kubernetes'', VMap k8s)]"] that path d
    show ?thesis
      by (simp add: entriesOf_def)
  qed
  show "\<exists>doc. Generate p r opts = Inr (Some doc, calls)
          \<and> doc = specMerge [(''kubernetes'', VMap k8s)] ?d
          \<and> (\<forall>path v. path \<noteq> [] \<and> getPath path (VMap (GenerateECS p r)) = Some v
                 \<and> (\<forall>bm. v \<noteq> VMap bm)
               \<longrightarrow> getPath path (VMap (Some doc)) = Some v)"
  proof (intro exI conjI allI impI)
    show "Generate p r opts = Inr (Some ?doc, calls)" by (rule gen)
    show "?doc = specMerge [(''kubernetes'', VMap k8s)] ?d" by (rule eq)
    show "getPath path (VMap (Some ?doc)) = Some v"
      if "path \<noteq> [] \<and> getPath path (VMap (GenerateECS p r)) = Some v \<and> (\<forall>bm. v \<noteq> VMap bm)"
      for path v
      using that by (rule leaf)
  qed
qed

theorem Generate_is_deep_merge_witness:
  "Generate (exGen\<lparr>resourceGenerateECS := (\<lambda>obj. exECSPod)\<rparr>) (PodObj exPod) [] =
     Inr (Some [(''kubernetes'',
                 VMap (Some [(''pod'', VMap (Some [(''name'', VStr ''p1-ecs''),
                                                  (''ip'', VStr ''10.0.0.5'')])),
                             (''replicaset'', VMap (Some [(''name'', VStr ''rs1'')])),
                             (''deployment'', VMap (Some [(''name'', VStr ''dep1'')])),
                             (''node'', VMap (Some [(''name'', VStr ''n1'')]))])),
                (''orchestrator'', VMap (Some [(''cluster'', VMap (Some [(''name'', VStr ''c1'')]))]))],
          [ReplicaSetGenerateFromName ''rs1'' []])
   \<and> Generate (exGen\<lparr>replicaset := None, resourceGenerateK8s := (\<lambda>kind obj opts. Some exBaseJob)\<rparr>)
        (PodObj exPod) [] = Inl NilDereference"
proof -
  let ?g = "exGen\<lparr>resourceGenerateECS := (\<lambda>obj. exECSPod)\<rparr>"
  let ?h = "exGen\<lparr>replicaset := None, resourceGenerateK8s := (\<lambda>kind obj opts. Some exBaseJob)\<rparr>"
  let ?k8s = "Some [(''pod'', VMap (Some [(''name'', VStr ''p1''), (''ip'', VStr ''10.0.0.5'')])),
                    (''replicaset'', VMap (Some [(''name'', VStr ''rs1'')])),
                    (''deployment'', VMap (Some [(''name'', VStr ''dep1'')])),
                    (''node'', VMap (Some [(''name'', VStr ''n1'')]))]"
  have ecs: "wfGenerator ?g"
    by (simp add: wfGenerator_def wfPeer_def ex_defs exECSPod_def)
  have ecs': "wfGenerator ?h"
    by (simp add: wfGenerator_def wfPeer_def ex_defs)
  have k: "GenerateK8s ?g (PodObj exPod) [] = Inr (?k8s, [ReplicaSetGenerateFromName ''rs1'' []])"
    by (simp add: ex_defs run_defs)
  have pn: "GenerateK8s ?h (PodObj exPod) [] = Inl NilDereference"
    by (simp add: ex_defs run_defs)
  from Generate_is_deep_merge [OF ecs, of "PodObj exPod" "[]"] k
  have "Generate ?g (PodObj exPod) [] =
          Inr (Some (specMerge [(''kubernetes'', VMap ?k8s)] (entriesOf (GenerateECS ?g (PodObj exPod)))),
               [ReplicaSetGenerateFromName ''rs1'' []])"
    by simp
  moreover have "specMerge [(''kubernetes'', VMap ?k8s)] (entriesOf (GenerateECS ?g (PodObj exPod)))
      = [(''kubernetes'',
                 VMap (Some [(''pod'', VMap (Some [(''name'', VStr ''p1-ecs''),
                                                  (''ip'', VStr ''10.0.0.5'')])),
                             (''replicaset'', VMap (Some [(''name'', VStr ''rs1'')])),
                             (''deployment'', VMap (Some [(''name'', VStr ''dep1'')])),
                             (''node'', VMap (Some [(''name'', VStr ''n1'')]))])),
                (''orchestrator'', VMap (Some [(''cluster'', VMap (Some [(''name'', VStr ''c1'')]))]))]"
    by (simp add: exGen_def exECSPod_def GenerateECS_def entriesOf_def
          specMerge.simps specMergeValue.simps)
  moreover from Generate_is_deep_merge [OF ecs', of "PodObj exPod" "[]"] pn
  have "Generate ?h (PodObj exPod) [] = Inl NilDereference"
    by simp
  ultimately show ?thesis
    by simp
qed

subsection \<open>C6: the Deployment hop\<close>




subsection \<open>C7: the node\<close>



subsection \<open>C8: \<open>GenerateFromName\<close>\<close>

text \<open>
  C8: \<^verbatim>\<open>GenerateFromName\<close> returns nil if the store is unset, if the store does not
  have the key, or if the object stored under the key is not a Pod; otherwise it returns
  what \<^verbatim>\<open>GenerateK8s\<close> returns for the stored Pod and the same options.
\<close>

theorem GenerateFromName_nil_or_GenerateK8s:
  "(store p = None \<longrightarrow> GenerateFromName p name opts = Inr (None, []))
   \<and> (\<forall>getByKey obj. store p = Some getByKey \<and> getByKey name = (obj, False)
        \<longrightarrow> GenerateFromName p name opts = Inr (None, []))
   \<and> (\<forall>getByKey kind. store p = Some getByKey \<and> getByKey name = (OtherObj kind, True)
        \<longrightarrow> GenerateFromName p name opts = Inr (None, []))
   \<and> (\<forall>getByKey po. store p = Some getByKey \<and> getByKey name = (PodObj po, True)
        \<longrightarrow> GenerateFromName p name opts = GenerateK8s p (PodObj po) opts)"
  by (simp add: GenerateFromName_def)

theorem GenerateFromName_witness:
  "GenerateFromName (exGen\<lparr>store := None\<rparr>) ''p1'' [] = Inr (None, [])
   \<and> GenerateFromName exGen ''missing-pod'' [] = Inr (None, [])
   \<and> GenerateFromName exGen ''rs1'' [] = Inr (None, [])
   \<and> GenerateFromName exGen ''p1'' [] = GenerateK8s exGen (PodObj exPod) []
   \<and> GenerateFromName exGen ''p1'' [] \<noteq> Inr (None, [])"
proof -
  have s: "store exGen = Some exStore"
    by (simp add: exGen_def)
  have a: "GenerateFromName (exGen\<lparr>store := None\<rparr>) ''p1'' [] = Inr (None, [])"
    using GenerateFromName_nil_or_GenerateK8s [of "exGen\<lparr>store := None\<rparr>" "''p1''" "[]"]
    by simp
  have b: "GenerateFromName exGen ''missing-pod'' [] = Inr (None, [])"
    using GenerateFromName_nil_or_GenerateK8s [of exGen "''missing-pod''" "[]"] s
    by (simp add: exStore_def)
  have c: "GenerateFromName exGen ''rs1'' [] = Inr (None, [])"
    using GenerateFromName_nil_or_GenerateK8s [of exGen "''rs1''" "[]"] s
    by (simp add: exStore_def)
  have d: "GenerateFromName exGen ''p1'' [] = GenerateK8s exGen (PodObj exPod) []"
    using GenerateFromName_nil_or_GenerateK8s [of exGen "''p1''" "[]"] s
    by (simp add: exStore_def)
  have e: "GenerateK8s exGen (PodObj exPod) [] \<noteq> Inr (None, [])"
    by (simp add: ex_defs run_defs)
  from a b c d e show ?thesis
    by simp
qed

subsection \<open>C9: the IP address of the Pod\<close>



subsection \<open>C10: the same input gives the same document\<close>



end
